theory Spec2Isabelle
  imports Main "HOL-Library.AList"
begin

section \<open>The booking protocol of \<open>lib/bookingClient.ts\<close>\<close>

text \<open>
  The class \<open>MockServer\<close> keeps a table of time slots, a table of lock records
  (leases), a version counter and a set of subscribers. Its four entry points
  (\<open>lockSlot\<close>, \<open>confirmBooking\<close>, \<open>releaseLock\<close> and the timer-driven
  \<open>gcExpiredLocks\<close>) are embedded below as functions from a server state to a
  response and the next server state.

  Each asynchronous entry point awaits a delay first and then runs its whole body without
  another \<open>await\<close>, so a body is one atomic step of the single-threaded runtime. What a
  body reads from its environment is a parameter of the model: \<open>now\<close> is the value of
  \<open>Date.now()\<close>, \<open>rnd\<close> the string \<open>Math.random().toString(36).slice(2)\<close>, and
  the constructor's draws \<open>Math.random() < 0.4\<close> are a list of booleans whose length is
  the drawn slot count (five to nine in the source; the theorems hold for every length).
  Numbers are modelled as \<open>int\<close>: versions and millisecond timestamps are integers far
  below the range where doubles lose precision. The objects of the slot table are shared
  with the events and responses that carry them; the model records their values at the
  time of the call.
\<close>

subsection \<open>Data (\<open>types/booking.ts\<close> and \<open>LockRecord\<close>)\<close>

type_synonym SlotId = string

datatype SlotStatus = Available | Locked | Booked

text \<open>
  A \<open>TimeSlot\<close> as the constructor builds it: \<open>id\<close>, \<open>label\<close>, \<open>status\<close> and the
  extra flag \<open>booked\<close>; \<open>lockedBy\<close> is optional. The declared fields \<open>remaining\<close>
  and \<open>bookedBy\<close> are never written by the server and are left out.
\<close>

record TimeSlot =
  id_slot :: SlotId
  label :: string
  status :: SlotStatus
  booked :: bool
  lockedBy :: "string option"

record LockRecord =
  lockId :: string
  slotId :: SlotId
  userId :: string
  expiresAt :: int

text \<open>The union of the \<open>error\<close> string literals of the three response types.\<close>

datatype Error =
  NotFound | VersionConflict | AlreadyBooked | LockedByOther
  | LockNotFound | LockExpired | Forbidden

text \<open>
  A response \<open>{ok: true, <payload>, version}\<close> is \<open>Ok payload version\<close>; a response
  \<open>{ok: false, version, error}\<close> is \<open>Fail error version\<close>.
\<close>

datatype 'a Response = Ok 'a int | Fail Error int

fun ok :: "'a Response \<Rightarrow> bool" where
  "ok (Ok _ _) = True"
| "ok (Fail _ _) = False"

fun error :: "'a Response \<Rightarrow> Error option" where
  "error (Ok _ _) = None"
| "error (Fail e _) = Some e"

fun version_of :: "'a Response \<Rightarrow> int" where
  "version_of (Ok _ v) = v"
| "version_of (Fail _ v) = v"

text \<open>The \<open>lock\<close> object of a \<open>LockSlotResponse\<close>: \<open>lockId\<close>, \<open>slotId\<close>, \<open>expiresAt\<close>.\<close>

type_synonym LockInfo = "string \<times> SlotId \<times> int"

text \<open>A \<open>SlotsUpdateEvent\<close>: the slot values in table order, and the version.\<close>

type_synonym SlotsUpdateEvent = "TimeSlot list \<times> int"

text \<open>
  The two \<open>Map\<close>s are association lists in insertion order: \<open>get\<close> is \<open>map_of\<close>,
  \<open>set\<close> is \<open>AList.update\<close> (overwrite in place, or append a new key), \<open>delete\<close> is
  \<open>AList.delete\<close>. The field \<open>delivered\<close> is the trace of events handed to the
  subscribers, oldest first; it stands for the effect of \<open>subscribers.forEach\<close>.
\<close>

record MockServer =
  slots :: "(SlotId \<times> TimeSlot) list"
  locks :: "(string \<times> LockRecord) list"
  version :: int
  delivered :: "SlotsUpdateEvent list"

subsection \<open>The constructor\<close>

text \<open>
  \<open>String(n)\<close> for a natural number: its decimal digits (\<open>digit\<close> is only applied
  to numbers below ten).
\<close>

definition digit :: "nat \<Rightarrow> char" where
  "digit d = ''0123456789'' ! d"

fun digits :: "nat \<Rightarrow> string" where
  "digits n = (if n < 10 then [digit n] else digits (n div 10) @ [digit (n mod 10)])"

definition padStart2 :: "string \<Rightarrow> string" where
  "padStart2 t = replicate (2 - length t) CHR ''0'' @ t"

definition fmt :: "nat \<Rightarrow> string" where
  "fmt h = padStart2 (digits h) @ '':00''"

definition initialSlot :: "nat \<Rightarrow> bool \<Rightarrow> TimeSlot" where
  "initialSlot i drawn =
     \<lparr>id_slot = ''slot-'' @ digits (i + 1),
      label = fmt (10 + i) @ ''-'' @ fmt (10 + i + 1),
      status = Available,
      booked = drawn,
      lockedBy = None\<rparr>"

fun initialSlots :: "nat \<Rightarrow> bool list \<Rightarrow> TimeSlot list" where
  "initialSlots i [] = []"
| "initialSlots i (drawn # rest) = initialSlot i drawn # initialSlots (i + 1) rest"

definition newMockServer :: "bool list \<Rightarrow> MockServer" where
  "newMockServer draws =
     \<lparr>slots = fold (\<lambda>t tbl. AList.update (id_slot t) t tbl) (initialSlots 0 draws) [],
      locks = [],
      version = 1,
      delivered = []\<rparr>"

subsection \<open>\<open>bumpVersionAndBroadcast\<close> and \<open>gcExpiredLocks\<close>\<close>

definition bumpVersionAndBroadcast :: "MockServer \<Rightarrow> MockServer" where
  "bumpVersionAndBroadcast s =
     s\<lparr>version := version s + 1,
       delivered := delivered s @ [(map snd (slots s), version s + 1)]\<rparr>"

text \<open>
  One call of the \<open>forEach\<close> callback of the sweep, on the triple of the slot table,
  the flag \<open>changed\<close> and the array \<open>expiredLockIds\<close>.
\<close>

fun gcVisit ::
  "int \<Rightarrow> string \<times> LockRecord \<Rightarrow>
   (SlotId \<times> TimeSlot) list \<times> bool \<times> string list \<Rightarrow>
   (SlotId \<times> TimeSlot) list \<times> bool \<times> string list" where
  "gcVisit now (k, r) (tbl, changed, expiredLockIds) =
     (if expiresAt r \<le> now then
        (case map_of tbl (slotId r) of
           None \<Rightarrow> (tbl, changed, expiredLockIds @ [k])
         | Some slot \<Rightarrow>
             if status slot = Locked
             then (AList.update (slotId r) (slot\<lparr>status := Available, lockedBy := None\<rparr>) tbl,
                   True, expiredLockIds @ [k])
             else (tbl, changed, expiredLockIds @ [k]))
      else (tbl, changed, expiredLockIds))"

definition gcExpiredLocks :: "int \<Rightarrow> MockServer \<Rightarrow> MockServer" where
  "gcExpiredLocks now s =
     (case fold (gcVisit now) (locks s) (slots s, False, []) of
        (tbl, changed, expiredLockIds) \<Rightarrow>
          (let s1 = s\<lparr>slots := tbl, locks := fold AList.delete expiredLockIds (locks s)\<rparr>
           in if changed then bumpVersionAndBroadcast s1 else s1))"

subsection \<open>\<open>lockSlot\<close>, \<open>confirmBooking\<close>, \<open>releaseLock\<close>\<close>

text \<open>
  The guard \<open>req.expectedVersion && req.expectedVersion !== this.version\<close>: an absent
  field and the number \<open>0\<close> are both falsy.
\<close>

definition versionMismatch :: "int option \<Rightarrow> int \<Rightarrow> bool" where
  "versionMismatch expectedVersion v =
     (case expectedVersion of
        None \<Rightarrow> False
      | Some e \<Rightarrow> e \<noteq> 0 \<and> e \<noteq> v)"

definition lockSlot ::
  "SlotId \<Rightarrow> string \<Rightarrow> int option \<Rightarrow> string \<Rightarrow> int \<Rightarrow> MockServer \<Rightarrow>
   LockInfo Response \<times> MockServer" where
  "lockSlot sid uid expectedVersion rnd now s =
     (case map_of (slots s) sid of
        None \<Rightarrow> (Fail NotFound (version s), s)
      | Some slot \<Rightarrow>
          if versionMismatch expectedVersion (version s)
            then (Fail VersionConflict (version s), s)
          else if status slot = Booked then (Fail AlreadyBooked (version s), s)
          else if booked slot then (Fail AlreadyBooked (version s), s)
          else if status slot = Locked \<and> lockedBy slot \<noteq> Some uid
            then (Fail LockedByOther (version s), s)
          else
            (let lid = ''lock_'' @ rnd;
                 lock = \<lparr>lockId = lid, slotId = id_slot slot, userId = uid,
                         expiresAt = now + 10000\<rparr>;
                 s1 = s\<lparr>locks := AList.update lid lock (locks s)\<rparr>;
                 s2 = s1\<lparr>slots :=
                         AList.update sid (slot\<lparr>status := Locked, lockedBy := Some uid\<rparr>)
                           (slots s1)\<rparr>;
                 s3 = bumpVersionAndBroadcast s2
             in (Ok (lid, id_slot slot, expiresAt lock) (version s3), s3)))"

definition confirmBooking ::
  "string \<Rightarrow> string \<Rightarrow> int \<Rightarrow> MockServer \<Rightarrow> TimeSlot Response \<times> MockServer" where
  "confirmBooking lid uid now s =
     (case map_of (locks s) lid of
        None \<Rightarrow> (Fail LockNotFound (version s), s)
      | Some r \<Rightarrow>
          if userId r \<noteq> uid then (Fail LockNotFound (version s), s)
          else if expiresAt r \<le> now then (Fail LockExpired (version s), s)
          else
            (case map_of (slots s) (slotId r) of
               None \<Rightarrow> (Fail NotFound (version s), s)
             | Some slot \<Rightarrow>
                 if status slot = Booked then (Fail AlreadyBooked (version s), s)
                 else if booked slot then (Fail AlreadyBooked (version s), s)
                 else
                   (let slot' = slot\<lparr>booked := False, lockedBy := None, status := Available\<rparr>;
                        s1 = s\<lparr>slots := AList.update (slotId r) slot' (slots s)\<rparr>;
                        s2 = s1\<lparr>locks := AList.delete lid (locks s1)\<rparr>;
                        s3 = bumpVersionAndBroadcast s2
                    in (Ok slot' (version s3), s3))))"

definition releaseLock ::
  "string \<Rightarrow> string \<Rightarrow> MockServer \<Rightarrow> unit Response \<times> MockServer" where
  "releaseLock lid uid s =
     (case map_of (locks s) lid of
        None \<Rightarrow> (Fail LockNotFound (version s), s)
      | Some r \<Rightarrow>
          if userId r \<noteq> uid then (Fail Forbidden (version s), s)
          else
            (let s1 = s\<lparr>locks := AList.delete lid (locks s)\<rparr>;
                 s2 = (case map_of (slots s) (slotId r) of
                         None \<Rightarrow> s1
                       | Some slot \<Rightarrow>
                           if status slot = Locked
                           then s1\<lparr>slots :=
                                  AList.update (slotId r)
                                    (slot\<lparr>status := Available, lockedBy := None\<rparr>) (slots s1)\<rparr>
                           else s1);
                 s3 = bumpVersionAndBroadcast s2
             in (Ok () (version s3), s3)))"

subsection \<open>Sequences of operations\<close>

text \<open>
  The server is driven by calls of the three entry points and by ticks of the sweep timer,
  in any order. An operation carries the request's fields and what its body reads from
  the environment.
\<close>

datatype Op =
  LockSlot SlotId string "int option" string int
  | ConfirmBooking string string int
  | ReleaseLock string string
  | Sweep int

fun step :: "Op \<Rightarrow> MockServer \<Rightarrow> MockServer" where
  "step (LockSlot sid uid expectedVersion rnd now) s =
     snd (lockSlot sid uid expectedVersion rnd now s)"
| "step (ConfirmBooking lid uid now) s = snd (confirmBooking lid uid now s)"
| "step (ReleaseLock lid uid) s = snd (releaseLock lid uid s)"
| "step (Sweep now) s = gcExpiredLocks now s"

definition run :: "Op list \<Rightarrow> MockServer \<Rightarrow> MockServer" where
  "run ops s = fold step ops s"

text \<open>
  The random lock id of a \<open>lockSlot\<close> call is fresh when no record of the lock table has
  it as its key; a run is fresh when each of its \<open>lockSlot\<close> calls draws a fresh id.
\<close>

fun freshId :: "Op \<Rightarrow> MockServer \<Rightarrow> bool" where
  "freshId (LockSlot sid uid expectedVersion rnd now) s =
     (map_of (locks s) (''lock_'' @ rnd) = None)"
| "freshId _ s = True"

fun freshRun :: "Op list \<Rightarrow> MockServer \<Rightarrow> bool" where
  "freshRun [] s = True"
| "freshRun (x # xs) s = (freshId x s \<and> freshRun xs (step x s))"

text \<open>The lock records that reference a slot.\<close>

definition leasesOf :: "SlotId \<Rightarrow> MockServer \<Rightarrow> (string \<times> LockRecord) list" where
  "leasesOf sid s = filter (\<lambda>(k, r). slotId r = sid) (locks s)"



text \<open>The lock id a \<open>lockSlot\<close> call draws.\<close>

fun drawnId :: "Op \<Rightarrow> string option" where
  "drawnId (LockSlot sid uid expectedVersion rnd now) = Some (''lock_'' @ rnd)"
| "drawnId _ = None"

text \<open>
  The representation invariant of the proofs below: the lock table is a \<open>Map\<close> (its keys
  are distinct), every slot is stored under its own \<open>id\<close>, and every slot with status
  \<open>locked\<close> is referenced by a lock record of the user in \<open>lockedBy\<close>.
\<close>

definition wellFormed :: "MockServer \<Rightarrow> bool" where
  "wellFormed s \<longleftrightarrow>
     distinct (map fst (locks s)) \<and>
     (\<forall>k slot. map_of (slots s) k = Some slot \<longrightarrow> id_slot slot = k) \<and>
     (\<forall>sid slot. map_of (slots s) sid = Some slot \<longrightarrow> status slot = Locked \<longrightarrow>
        (\<exists>k r. map_of (locks s) k = Some r \<and> slotId r = sid \<and>
           lockedBy slot = Some (userId r)))"

text \<open>
  A \<open>lockSlot\<close> call re-locks when the caller already holds the slot: the slot is locked
  and \<open>lockedBy\<close> is the caller. A run is plain when its lock ids are fresh and none of
  its calls re-locks.
\<close>

fun ownRelock :: "Op \<Rightarrow> MockServer \<Rightarrow> bool" where
  "ownRelock (LockSlot sid uid expectedVersion rnd now) s =
     (case map_of (slots s) sid of
        None \<Rightarrow> False
      | Some slot \<Rightarrow> status slot = Locked \<and> lockedBy slot = Some uid)"
| "ownRelock _ s = False"

fun plainRun :: "Op list \<Rightarrow> MockServer \<Rightarrow> bool" where
  "plainRun [] s = True"
| "plainRun (x # xs) s = (freshId x s \<and> \<not> ownRelock x s \<and> plainRun xs (step x s))"

text \<open>
  In a plain run the number of lock records that reference a slot id is one when the slot
  is locked and zero otherwise.
\<close>

definition oneLease :: "MockServer \<Rightarrow> bool" where
  "oneLease s \<longleftrightarrow>
     (\<forall>sid. length (leasesOf sid s) =
        (case map_of (slots s) sid of
           None \<Rightarrow> 0
         | Some slot \<Rightarrow> if status slot = Locked then 1 else 0))"

subsection \<open>Concrete servers\<close>

text \<open>
  A server whose constructor drew five slots, the first of them with \<open>booked\<close> set, and
  the states it reaches when alice locks \<open>slot-2\<close> at time 0, locks it again at time
  5000, and then releases her first lock.
\<close>

definition server5 :: MockServer where
  "server5 = newMockServer [True, False, False, False, False]"

definition aliceOnce :: "Op list" where
  "aliceOnce = [LockSlot ''slot-2'' ''alice'' (Some 1) ''a'' 0]"

definition aliceTwice :: "Op list" where
  "aliceTwice = aliceOnce @ [LockSlot ''slot-2'' ''alice'' None ''b'' 5000]"

definition aliceReleased :: "Op list" where
  "aliceReleased = aliceTwice @ [ReleaseLock ''lock_a'' ''alice'']"

declare digits.simps [simp del]

section \<open>Evaluation of the concrete servers\<close>

lemmas eval_defs =
  newMockServer_def initialSlot_def digits.simps digit_def fmt_def padStart2_def
  lockSlot_def confirmBooking_def releaseLock_def gcExpiredLocks_def
  versionMismatch_def bumpVersionAndBroadcast_def run_def Let_def

lemma server5_eq:
  "server5 =
     \<lparr>slots =
        [(''slot-1'', \<lparr>id_slot = ''slot-1'', label = ''10:00-11:00'', status = Available,
            booked = True, lockedBy = None\<rparr>),
         (''slot-2'', \<lparr>id_slot = ''slot-2'', label = ''11:00-12:00'', status = Available,
            booked = False, lockedBy = None\<rparr>),
         (''slot-3'', \<lparr>id_slot = ''slot-3'', label = ''12:00-13:00'', status = Available,
            booked = False, lockedBy = None\<rparr>),
         (''slot-4'', \<lparr>id_slot = ''slot-4'', label = ''13:00-14:00'', status = Available,
            booked = False, lockedBy = None\<rparr>),
         (''slot-5'', \<lparr>id_slot = ''slot-5'', label = ''14:00-15:00'', status = Available,
            booked = False, lockedBy = None\<rparr>)],
      locks = [], version = 1, delivered = []\<rparr>"
  by (simp add: server5_def eval_defs)

lemma aliceOnce_locks:
  "locks (run aliceOnce server5) =
     [(''lock_a'', \<lparr>lockId = ''lock_a'', slotId = ''slot-2'', userId = ''alice'',
         expiresAt = 10000\<rparr>)]"
  by (simp add: aliceOnce_def server5_eq eval_defs)

lemma aliceOnce_slots:
  "slots (run aliceOnce server5) =
     [(''slot-1'', \<lparr>id_slot = ''slot-1'', label = ''10:00-11:00'', status = Available,
         booked = True, lockedBy = None\<rparr>),
      (''slot-2'', \<lparr>id_slot = ''slot-2'', label = ''11:00-12:00'', status = Locked,
         booked = False, lockedBy = Some ''alice''\<rparr>),
      (''slot-3'', \<lparr>id_slot = ''slot-3'', label = ''12:00-13:00'', status = Available,
         booked = False, lockedBy = None\<rparr>),
      (''slot-4'', \<lparr>id_slot = ''slot-4'', label = ''13:00-14:00'', status = Available,
         booked = False, lockedBy = None\<rparr>),
      (''slot-5'', \<lparr>id_slot = ''slot-5'', label = ''14:00-15:00'', status = Available,
         booked = False, lockedBy = None\<rparr>)]"
  by (simp add: aliceOnce_def server5_eq eval_defs)

lemma aliceOnce_version: "version (run aliceOnce server5) = 2"
  by (simp add: aliceOnce_def server5_eq eval_defs)

lemma aliceTwice_locks:
  "locks (run aliceTwice server5) =
     [(''lock_a'', \<lparr>lockId = ''lock_a'', slotId = ''slot-2'', userId = ''alice'',
         expiresAt = 10000\<rparr>),
      (''lock_b'', \<lparr>lockId = ''lock_b'', slotId = ''slot-2'', userId = ''alice'',
         expiresAt = 15000\<rparr>)]"
  by (simp add: aliceTwice_def aliceOnce_def server5_eq eval_defs)

lemma aliceTwice_slot2:
  "map_of (slots (run aliceTwice server5)) ''slot-2'' =
     Some \<lparr>id_slot = ''slot-2'', label = ''11:00-12:00'', status = Locked,
         booked = False, lockedBy = Some ''alice''\<rparr>"
  by (simp add: aliceTwice_def aliceOnce_def server5_eq eval_defs)


lemma aliceReleased_locks:
  "locks (run aliceReleased server5) =
     [(''lock_b'', \<lparr>lockId = ''lock_b'', slotId = ''slot-2'', userId = ''alice'',
         expiresAt = 15000\<rparr>)]"
  by (simp add: aliceReleased_def aliceTwice_def aliceOnce_def server5_eq eval_defs)

lemma aliceReleased_slot2:
  "map_of (slots (run aliceReleased server5)) ''slot-2'' =
     Some \<lparr>id_slot = ''slot-2'', label = ''11:00-12:00'', status = Available,
         booked = False, lockedBy = None\<rparr>"
  by (simp add: aliceReleased_def aliceTwice_def aliceOnce_def server5_eq eval_defs)

lemma aliceReleased_version: "version (run aliceReleased server5) = 4"
  by (simp add: aliceReleased_def aliceTwice_def aliceOnce_def server5_eq eval_defs)

lemma aliceReleased_fresh: "freshRun aliceReleased server5"
  by (simp add: aliceReleased_def aliceTwice_def aliceOnce_def server5_eq eval_defs)

lemma aliceOnce_plain: "plainRun aliceOnce server5"
  by (simp add: aliceOnce_def server5_eq)

section \<open>The responses of the three entry points\<close>

text \<open>
  The checks of \<open>lockSlot\<close> in the order of the source, with the two \<open>AlreadyBooked\<close>
  tests merged; the last branch is the only one that changes the state.
\<close>

lemma lockSlot_checks:
  "lockSlot sid uid ev rnd now s =
     (case map_of (slots s) sid of
        None \<Rightarrow> (Fail NotFound (version s), s)
      | Some slot \<Rightarrow>
          if versionMismatch ev (version s) then (Fail VersionConflict (version s), s)
          else if status slot = Booked \<or> booked slot then (Fail AlreadyBooked (version s), s)
          else if status slot = Locked \<and> lockedBy slot \<noteq> Some uid
            then (Fail LockedByOther (version s), s)
          else (Ok (''lock_'' @ rnd, id_slot slot, now + 10000) (version s + 1),
                snd (lockSlot sid uid ev rnd now s)))"
  by (simp add: lockSlot_def Let_def bumpVersionAndBroadcast_def split: option.split)

lemma lockSlot_failed_state:
  "\<not> ok (fst (lockSlot sid uid ev rnd now s)) \<Longrightarrow> snd (lockSlot sid uid ev rnd now s) = s"
  by (simp add: lockSlot_def Let_def split: option.splits if_splits)

lemma confirmBooking_failed_state:
  "\<not> ok (fst (confirmBooking lid uid now s)) \<Longrightarrow> snd (confirmBooking lid uid now s) = s"
  by (simp add: confirmBooking_def Let_def split: option.splits if_splits)

lemma releaseLock_failed_state:
  "\<not> ok (fst (releaseLock lid uid s)) \<Longrightarrow> snd (releaseLock lid uid s) = s"
  by (auto simp add: releaseLock_def Let_def split: option.splits if_splits)

lemma ok_iff_no_error: "ok r \<longleftrightarrow> error r = None"
  by (cases r) simp_all

lemma failed_version_of:
  "\<not> ok (fst (lockSlot sid uid ev rnd now s)) \<Longrightarrow>
     version_of (fst (lockSlot sid uid ev rnd now s)) = version s"
  "\<not> ok (fst (confirmBooking lid uid now s)) \<Longrightarrow>
     version_of (fst (confirmBooking lid uid now s)) = version s"
  "\<not> ok (fst (releaseLock lid uid s)) \<Longrightarrow>
     version_of (fst (releaseLock lid uid s)) = version s"
  by (auto simp add: lockSlot_def confirmBooking_def releaseLock_def Let_def
        split: option.splits if_splits)

section \<open>C1: a successful confirmation\<close>

text \<open>
  C1, as the code has it. When \<open>confirmBooking\<close> is called for a lease \<open>L\<close> by its owner
  and succeeds, then \<open>L\<close> has not expired and its slot exists, has not the status
  \<open>booked\<close> and has not the flag \<open>booked\<close>; the slot is returned with \<open>booked\<close> false,
  \<open>lockedBy\<close> cleared and status \<open>available\<close> (not \<open>booked\<close>); the slot table holds
  that slot, the lease is deleted and the version is one higher, in the state and in the
  response.
\<close>

theorem confirmBooking_success:
  assumes "map_of (locks s) lid = Some L"
    and "ok (fst (confirmBooking lid (userId L) now s))"
  shows "\<exists>slot. map_of (slots s) (slotId L) = Some slot \<and>
           now < expiresAt L \<and> status slot \<noteq> Booked \<and> \<not> booked slot \<and>
           fst (confirmBooking lid (userId L) now s) =
             Ok (slot\<lparr>booked := False, lockedBy := None, status := Available\<rparr>) (version s + 1) \<and>
           map_of (slots (snd (confirmBooking lid (userId L) now s))) (slotId L) =
             Some (slot\<lparr>booked := False, lockedBy := None, status := Available\<rparr>) \<and>
           map_of (locks (snd (confirmBooking lid (userId L) now s))) lid = None \<and>
           locks (snd (confirmBooking lid (userId L) now s)) = AList.delete lid (locks s) \<and>
           version (snd (confirmBooking lid (userId L) now s)) = version s + 1"
  using assms
  by (auto simp add: confirmBooking_def Let_def bumpVersionAndBroadcast_def
        AList.update_conv' AList.delete_conv' split: option.splits if_splits)

theorem confirmBooking_success_witness:
  "map_of (locks (run aliceOnce server5)) ''lock_a'' =
     Some \<lparr>lockId = ''lock_a'', slotId = ''slot-2'', userId = ''alice'', expiresAt = 10000\<rparr> \<and>
   ok (fst (confirmBooking ''lock_a'' ''alice'' 5000 (run aliceOnce server5))) \<and>
   map_of (locks (snd (confirmBooking ''lock_a'' ''alice'' 5000 (run aliceOnce server5))))
     ''lock_a'' = None \<and>
   version (snd (confirmBooking ''lock_a'' ''alice'' 5000 (run aliceOnce server5))) = 3"
proof -
  let ?L = "\<lparr>lockId = ''lock_a'', slotId = ''slot-2'', userId = ''alice'', expiresAt = 10000\<rparr>"
  let ?s = "run aliceOnce server5"
  have h1: "map_of (locks ?s) ''lock_a'' = Some ?L"
    by (simp add: aliceOnce_locks)
  have h2: "ok (fst (confirmBooking ''lock_a'' (userId ?L) 5000 ?s))"
    by (simp add: confirmBooking_def aliceOnce_locks aliceOnce_slots Let_def)
  from confirmBooking_success [OF h1 h2]
  have "map_of (locks (snd (confirmBooking ''lock_a'' (userId ?L) 5000 ?s))) ''lock_a'' = None \<and>
        version (snd (confirmBooking ''lock_a'' (userId ?L) 5000 ?s)) = version ?s + 1"
    by blast
  with h1 h2 show ?thesis
    by (simp add: aliceOnce_version)
qed

text \<open>
  C1 as the specification states it fails: alice locks \<open>slot-2\<close> of the
  five-slot server and confirms her lease in time; the call succeeds and the slot's status
  is \<open>available\<close>.
\<close>

theorem confirmBooking_not_booked_counterexample:
  "ok (fst (confirmBooking ''lock_a'' ''alice'' 5000 (run aliceOnce server5))) \<and>
   map_option status
     (map_of (slots (snd (confirmBooking ''lock_a'' ''alice'' 5000 (run aliceOnce server5))))
        ''slot-2'') = Some Available"
  by (simp add: confirmBooking_def aliceOnce_locks aliceOnce_slots Let_def
        bumpVersionAndBroadcast_def)

section \<open>C4: the order of the checks of \<open>lockSlot\<close>\<close>

text \<open>
  C4 at the input where the code departs from it. The five-slot server is at version 1;
  a request for \<open>slot-2\<close> with \<open>expectedVersion: 0\<close> names a version that differs from
  the current one, yet the call is not refused with \<open>VersionConflict\<close>: the lease is
  created and the version becomes 2.
\<close>

theorem lockSlot_expectedVersion_zero:
  "version server5 = 1 \<and>
   fst (lockSlot ''slot-2'' ''alice'' (Some 0) ''a'' 0 server5) =
     Ok (''lock_a'', ''slot-2'', 10000) 2 \<and>
   locks (snd (lockSlot ''slot-2'' ''alice'' (Some 0) ''a'' 0 server5)) =
     [(''lock_a'', \<lparr>lockId = ''lock_a'', slotId = ''slot-2'', userId = ''alice'',
         expiresAt = 10000\<rparr>)]"
  by (simp add: server5_eq eval_defs)

section \<open>C6: a failed call changes nothing\<close>

text \<open>
  C6. Whenever \<open>lockSlot\<close>, \<open>confirmBooking\<close> or \<open>releaseLock\<close> answers with an error, the
  server state after the call (slot table, lock table, version and the events delivered
  to subscribers) is the state before it, and the response carries the unchanged version.
\<close>

theorem failed_operation_leaves_state:
  "(error (fst (lockSlot sid uid ev rnd now s)) \<noteq> None \<longrightarrow>
      snd (lockSlot sid uid ev rnd now s) = s \<and>
      version_of (fst (lockSlot sid uid ev rnd now s)) = version s) \<and>
   (error (fst (confirmBooking lid uid now s)) \<noteq> None \<longrightarrow>
      snd (confirmBooking lid uid now s) = s \<and>
      version_of (fst (confirmBooking lid uid now s)) = version s) \<and>
   (error (fst (releaseLock lid uid s)) \<noteq> None \<longrightarrow>
      snd (releaseLock lid uid s) = s \<and>
      version_of (fst (releaseLock lid uid s)) = version s)"
  by (simp add: ok_iff_no_error [symmetric] lockSlot_failed_state confirmBooking_failed_state
        releaseLock_failed_state failed_version_of)

theorem failed_operation_leaves_state_witness:
  "error (fst (lockSlot ''slot-2'' ''bob'' None ''c'' 1 (run aliceOnce server5))) \<noteq> None \<and>
   snd (lockSlot ''slot-2'' ''bob'' None ''c'' 1 (run aliceOnce server5)) = run aliceOnce server5 \<and>
   error (fst (confirmBooking ''lock_a'' ''bob'' 1 (run aliceOnce server5))) \<noteq> None \<and>
   snd (confirmBooking ''lock_a'' ''bob'' 1 (run aliceOnce server5)) = run aliceOnce server5 \<and>
   error (fst (releaseLock ''lock_a'' ''bob'' (run aliceOnce server5))) \<noteq> None \<and>
   snd (releaseLock ''lock_a'' ''bob'' (run aliceOnce server5)) = run aliceOnce server5"
proof -
  let ?s = "run aliceOnce server5"
  have h1: "error (fst (lockSlot ''slot-2'' ''bob'' None ''c'' 1 ?s)) \<noteq> None"
    by (simp add: lockSlot_checks aliceOnce_slots versionMismatch_def)
  have h2: "error (fst (confirmBooking ''lock_a'' ''bob'' 1 ?s)) \<noteq> None"
    by (simp add: confirmBooking_def aliceOnce_locks)
  have h3: "error (fst (releaseLock ''lock_a'' ''bob'' ?s)) \<noteq> None"
    by (simp add: releaseLock_def aliceOnce_locks)
  from failed_operation_leaves_state
    [of "''slot-2''" "''bob''" None "''c''" 1 ?s "''lock_a''"]
    h1 h2 h3
  show ?thesis by blast
qed

section \<open>C7: a caller who is not the owner\<close>

text \<open>
  C7. For a lease \<open>L\<close> stored under \<open>lid\<close> and a caller other than its owner,
  \<open>confirmBooking\<close> answers \<open>LockNotFound\<close> and \<open>releaseLock\<close> answers \<open>Forbidden\<close>;
  both leave the state as it was.
\<close>

theorem wrong_owner_is_refused:
  assumes "map_of (locks s) lid = Some L" and "uid \<noteq> userId L"
  shows "confirmBooking lid uid now s = (Fail LockNotFound (version s), s) \<and>
         releaseLock lid uid s = (Fail Forbidden (version s), s)"
  using assms by (auto simp add: confirmBooking_def releaseLock_def)

theorem wrong_owner_is_refused_witness:
  "map_of (locks (run aliceOnce server5)) ''lock_a'' =
     Some \<lparr>lockId = ''lock_a'', slotId = ''slot-2'', userId = ''alice'', expiresAt = 10000\<rparr> \<and>
   ''carol'' \<noteq> ''alice'' \<and>
   confirmBooking ''lock_a'' ''carol'' 1 (run aliceOnce server5) =
     (Fail LockNotFound 2, run aliceOnce server5) \<and>
   releaseLock ''lock_a'' ''carol'' (run aliceOnce server5) =
     (Fail Forbidden 2, run aliceOnce server5)"
proof -
  let ?L = "\<lparr>lockId = ''lock_a'', slotId = ''slot-2'', userId = ''alice'', expiresAt = 10000\<rparr>"
  have h1: "map_of (locks (run aliceOnce server5)) ''lock_a'' = Some ?L"
    by (simp add: aliceOnce_locks)
  have h2: "''carol'' \<noteq> userId ?L"
    by simp
  from wrong_owner_is_refused [OF h1 h2, of 1] h1 show ?thesis
    by (simp add: aliceOnce_version)
qed

section \<open>The sweep\<close>

text \<open>
  What the loop of \<open>gcExpiredLocks\<close> computes: the ids it collects, the slot table it
  leaves, and the flag \<open>changed\<close>.
\<close>

lemma fold_delete_filter:
  "fold AList.delete ks al = filter (\<lambda>p. fst p \<notin> set ks) al"
proof (induction ks arbitrary: al)
  case Nil
  then show ?case by simp
next
  case (Cons k ks)
  have "AList.delete k al = filter (\<lambda>p. fst p \<noteq> k) al"
    by (auto simp add: AList.delete_eq intro: filter_cong)
  with Cons show ?case
    by (auto intro: filter_cong)
qed

lemma gc_expired:
  "snd (snd (fold (gcVisit now) ls (tbl, ch, ex))) =
     ex @ map fst (filter (\<lambda>(k, r). expiresAt r \<le> now) ls)"
  by (induction ls arbitrary: tbl ch ex) (auto split: option.splits)

lemma gc_slots:
  "map_of (fst (fold (gcVisit now) ls (tbl, ch, ex))) sid =
     map_option
       (\<lambda>slot. if status slot = Locked \<and> (\<exists>(k, r) \<in> set ls. expiresAt r \<le> now \<and> slotId r = sid)
          then slot\<lparr>status := Available, lockedBy := None\<rparr> else slot)
       (map_of tbl sid)"
proof (induction ls arbitrary: tbl ch ex)
  case Nil
  then show ?case by (simp add: option.map_ident)
next
  case (Cons p ls)
  obtain k r where p: "p = (k, r)" by (cases p)
  show ?case
    unfolding p
    by (cases "map_of tbl sid")
      (auto simp add: Cons.IH AList.update_conv' split: option.splits)
qed



lemma distinct_filter_keys:
  assumes "distinct (map fst al)"
  shows "filter (\<lambda>p. fst p \<notin> set (map fst (filter (\<lambda>(k, r). E r) al))) al =
         filter (\<lambda>(k, r). \<not> E r) al"
proof (rule filter_cong [OF refl])
  fix p assume p: "p \<in> set al"
  obtain k r where kr: "p = (k, r)" by (cases p)
  have "k \<in> fst ` {q \<in> set al. E (snd q)} \<longleftrightarrow> E r"
  proof
    assume "k \<in> fst ` {q \<in> set al. E (snd q)}"
    then obtain r' where "(k, r') \<in> set al" "E r'" by auto
    with assms p kr have "r' = r"
      by (metis eq_key_imp_eq_value)
    with \<open>E r'\<close> show "E r" by simp
  next
    assume "E r"
    with p kr show "k \<in> fst ` {q \<in> set al. E (snd q)}" by force
  qed
  then show "(fst p \<notin> set (map fst (filter (\<lambda>(k, r). E r) al))) = (case p of (k, r) \<Rightarrow> \<not> E r)"
    by (auto simp add: kr)
qed

lemma gcExpiredLocks_fields:
  "slots (gcExpiredLocks now s) = fst (fold (gcVisit now) (locks s) (slots s, False, []))"
  "locks (gcExpiredLocks now s) =
     fold AList.delete (snd (snd (fold (gcVisit now) (locks s) (slots s, False, [])))) (locks s)"
  "version (gcExpiredLocks now s) =
     version s + (if fst (snd (fold (gcVisit now) (locks s) (slots s, False, []))) then 1 else 0)"
  "delivered (gcExpiredLocks now s) =
     delivered s @
       (if fst (snd (fold (gcVisit now) (locks s) (slots s, False, [])))
        then [(map snd (slots (gcExpiredLocks now s)), version s + 1)] else [])"
  by (simp_all add: gcExpiredLocks_def Let_def bumpVersionAndBroadcast_def split: prod.splits)

lemma gc_locks:
  "distinct (map fst (locks s)) \<Longrightarrow>
     locks (gcExpiredLocks now s) = filter (\<lambda>(k, r). \<not> expiresAt r \<le> now) (locks s)"
proof -
  assume d: "distinct (map fst (locks s))"
  have "locks (gcExpiredLocks now s) =
      filter (\<lambda>p. fst p \<notin> set (map fst (filter (\<lambda>(k, r). expiresAt r \<le> now) (locks s))))
        (locks s)"
    by (simp only: gcExpiredLocks_fields gc_expired fold_delete_filter append_Nil)
  also have "\<dots> = filter (\<lambda>(k, r). \<not> expiresAt r \<le> now) (locks s)"
    using d by (rule distinct_filter_keys)
  finally show ?thesis .
qed

lemma gc_slots_of:
  "map_of (slots (gcExpiredLocks now s)) sid =
     map_option
       (\<lambda>slot. if status slot = Locked \<and>
                   (\<exists>(k, r) \<in> set (locks s). expiresAt r \<le> now \<and> slotId r = sid)
          then slot\<lparr>status := Available, lockedBy := None\<rparr> else slot)
       (map_of (slots s) sid)"
  by (simp only: gcExpiredLocks_fields gc_slots)





section \<open>Reachable states are well formed\<close>

lemma initial_fold:
  "map_of (fold (\<lambda>t tbl. AList.update (id_slot t) t tbl) (initialSlots i ds) tbl) k = Some slot \<Longrightarrow>
     map_of tbl k = Some slot \<or>
     (\<exists>j < length ds. slot = initialSlot (i + j) (ds ! j) \<and> k = id_slot slot)"
proof (induction ds arbitrary: i tbl)
  case Nil
  then show ?case by simp
next
  case (Cons d ds)
  from Cons.prems
  have "map_of (AList.update (id_slot (initialSlot i d)) (initialSlot i d) tbl) k = Some slot \<or>
     (\<exists>j < length ds. slot = initialSlot (i + 1 + j) (ds ! j) \<and> k = id_slot slot)"
    using Cons.IH [of "i + 1" "AList.update (id_slot (initialSlot i d)) (initialSlot i d) tbl"]
    by simp
  then show ?case
  proof
    assume "map_of (AList.update (id_slot (initialSlot i d)) (initialSlot i d) tbl) k = Some slot"
    then show ?thesis
      by (auto simp add: AList.update_conv' split: if_splits)
  next
    assume "\<exists>j < length ds. slot = initialSlot (i + 1 + j) (ds ! j) \<and> k = id_slot slot"
    then obtain j where "j < length ds" "slot = initialSlot (i + 1 + j) (ds ! j)" "k = id_slot slot"
      by blast
    then have "Suc j < length (d # ds) \<and> slot = initialSlot (i + Suc j) ((d # ds) ! Suc j) \<and>
        k = id_slot slot"
      by simp
    then show ?thesis by blast
  qed
qed

lemma initial_slot_of:
  assumes "map_of (slots (newMockServer draws)) k = Some slot"
  shows "\<exists>j < length draws. slot = initialSlot j (draws ! j) \<and> k = id_slot slot"
  using initial_fold [of 0 draws "[]" k slot] assms
  by (simp add: newMockServer_def)

lemma wellFormed_new: "wellFormed (newMockServer draws)"
  unfolding wellFormed_def
proof (intro conjI allI impI)
  show "distinct (map fst (locks (newMockServer draws)))"
    by (simp add: newMockServer_def)
next
  fix k slot assume "map_of (slots (newMockServer draws)) k = Some slot"
  then show "id_slot slot = k"
    by (auto dest: initial_slot_of)
next
  fix sid slot
  assume "map_of (slots (newMockServer draws)) sid = Some slot" "status slot = Locked"
  then show "\<exists>k r. map_of (locks (newMockServer draws)) k = Some r \<and> slotId r = sid \<and>
           lockedBy slot = Some (userId r)"
    by (auto dest!: initial_slot_of simp add: initialSlot_def)
qed

lemma lockSlot_success:
  assumes "ok (fst (lockSlot sid uid ev rnd now s))"
  shows "\<exists>slot. map_of (slots s) sid = Some slot \<and>
           (status slot = Locked \<longrightarrow> lockedBy slot = Some uid) \<and>
           locks (snd (lockSlot sid uid ev rnd now s)) =
             AList.update (''lock_'' @ rnd)
               \<lparr>lockId = ''lock_'' @ rnd, slotId = id_slot slot, userId = uid,
                  expiresAt = now + 10000\<rparr> (locks s) \<and>
           slots (snd (lockSlot sid uid ev rnd now s)) =
             AList.update sid (slot\<lparr>status := Locked, lockedBy := Some uid\<rparr>) (slots s)"
  using assms
  by (auto simp add: lockSlot_def Let_def bumpVersionAndBroadcast_def
        split: option.splits if_splits)

lemma confirmBooking_ok_state:
  assumes "ok (fst (confirmBooking lid uid now s))"
  shows "\<exists>r slot. map_of (locks s) lid = Some r \<and> map_of (slots s) (slotId r) = Some slot \<and>
           locks (snd (confirmBooking lid uid now s)) = AList.delete lid (locks s) \<and>
           slots (snd (confirmBooking lid uid now s)) =
             AList.update (slotId r)
               (slot\<lparr>booked := False, lockedBy := None, status := Available\<rparr>) (slots s)"
  using assms
  by (auto simp add: confirmBooking_def Let_def bumpVersionAndBroadcast_def
        split: option.splits if_splits)

lemma releaseLock_success:
  assumes "ok (fst (releaseLock lid uid s))"
  shows "\<exists>r. map_of (locks s) lid = Some r \<and>
           locks (snd (releaseLock lid uid s)) = AList.delete lid (locks s) \<and>
           slots (snd (releaseLock lid uid s)) =
             (case map_of (slots s) (slotId r) of
                None \<Rightarrow> slots s
              | Some slot \<Rightarrow>
                  if status slot = Locked
                  then AList.update (slotId r) (slot\<lparr>status := Available, lockedBy := None\<rparr>)
                         (slots s)
                  else slots s)"
  using assms
  by (auto simp add: releaseLock_def Let_def bumpVersionAndBroadcast_def
        split: option.splits if_splits)

lemma wellFormed_lockSlot:
  assumes wf: "wellFormed s" and fresh: "map_of (locks s) (''lock_'' @ rnd) = None"
  shows "wellFormed (snd (lockSlot sid uid ev rnd now s))"
proof (cases "ok (fst (lockSlot sid uid ev rnd now s))")
  case False
  then show ?thesis using wf by (simp add: lockSlot_failed_state)
next
  case True
  from lockSlot_success [OF True] obtain slot where
    slot: "map_of (slots s) sid = Some slot" and
    l: "locks (snd (lockSlot sid uid ev rnd now s)) =
             AList.update (''lock_'' @ rnd)
               \<lparr>lockId = ''lock_'' @ rnd, slotId = id_slot slot, userId = uid,
                  expiresAt = now + 10000\<rparr> (locks s)" and
    t: "slots (snd (lockSlot sid uid ev rnd now s)) =
             AList.update sid (slot\<lparr>status := Locked, lockedBy := Some uid\<rparr>) (slots s)"
    by blast
  from wf slot have id: "id_slot slot = sid"
    by (simp add: wellFormed_def)
  show ?thesis
    unfolding wellFormed_def l t
  proof (intro conjI allI impI)
    show "distinct (map fst (AList.update (''lock_'' @ rnd)
               \<lparr>lockId = ''lock_'' @ rnd, slotId = id_slot slot, userId = uid,
                  expiresAt = now + 10000\<rparr> (locks s)))"
      using wf by (simp add: wellFormed_def AList.distinct_update)
  next
    fix k x
    assume "map_of (AList.update sid (slot\<lparr>status := Locked, lockedBy := Some uid\<rparr>) (slots s)) k = Some x"
    then show "id_slot x = k"
      using wf id by (auto simp add: wellFormed_def AList.update_conv' split: if_splits)
  next
    fix sid' x
    assume a: "map_of (AList.update sid (slot\<lparr>status := Locked, lockedBy := Some uid\<rparr>) (slots s)) sid' = Some x"
      and b: "status x = Locked"
    show "\<exists>k r. map_of (AList.update (''lock_'' @ rnd)
               \<lparr>lockId = ''lock_'' @ rnd, slotId = id_slot slot, userId = uid,
                  expiresAt = now + 10000\<rparr> (locks s)) k = Some r \<and> slotId r = sid' \<and>
           lockedBy x = Some (userId r)"
    proof (cases "sid' = sid")
      case True
      with a id show ?thesis
        by (intro exI [of _ "''lock_'' @ rnd"]) (auto simp add: AList.update_conv')
    next
      case False
      with a have "map_of (slots s) sid' = Some x"
        by (simp add: AList.update_conv')
      with wf b obtain k r where kr: "map_of (locks s) k = Some r" "slotId r = sid'"
          "lockedBy x = Some (userId r)"
        unfolding wellFormed_def by blast
      with fresh have "k \<noteq> ''lock_'' @ rnd" by auto
      with kr show ?thesis
        by (intro exI [of _ k] exI [of _ r]) (simp add: AList.update_conv')
    qed
  qed
qed

lemma wellFormed_confirmBooking:
  assumes wf: "wellFormed s"
  shows "wellFormed (snd (confirmBooking lid uid now s))"
proof (cases "ok (fst (confirmBooking lid uid now s))")
  case False
  then show ?thesis using wf by (simp add: confirmBooking_failed_state)
next
  case True
  from confirmBooking_ok_state [OF True] obtain r slot where
    r: "map_of (locks s) lid = Some r" and
    slot: "map_of (slots s) (slotId r) = Some slot" and
    l: "locks (snd (confirmBooking lid uid now s)) = AList.delete lid (locks s)" and
    t: "slots (snd (confirmBooking lid uid now s)) =
             AList.update (slotId r)
               (slot\<lparr>booked := False, lockedBy := None, status := Available\<rparr>) (slots s)"
    by blast
  from wf slot have id: "id_slot slot = slotId r"
    by (simp add: wellFormed_def)
  show ?thesis
    unfolding wellFormed_def l t
  proof (intro conjI allI impI)
    show "distinct (map fst (AList.delete lid (locks s)))"
      using wf by (simp add: wellFormed_def AList.distinct_delete)
  next
    fix k x
    assume "map_of (AList.update (slotId r)
               (slot\<lparr>booked := False, lockedBy := None, status := Available\<rparr>) (slots s)) k = Some x"
    then show "id_slot x = k"
      using wf id by (auto simp add: wellFormed_def AList.update_conv' split: if_splits)
  next
    fix sid' x
    assume a: "map_of (AList.update (slotId r)
               (slot\<lparr>booked := False, lockedBy := None, status := Available\<rparr>) (slots s)) sid' = Some x"
      and b: "status x = Locked"
    then have ne: "sid' \<noteq> slotId r" and "map_of (slots s) sid' = Some x"
      by (auto simp add: AList.update_conv' split: if_splits)
    with wf b obtain k r' where kr: "map_of (locks s) k = Some r'" "slotId r' = sid'"
          "lockedBy x = Some (userId r')"
      unfolding wellFormed_def by blast
    with r ne have "k \<noteq> lid" by auto
    with kr show "\<exists>k r. map_of (AList.delete lid (locks s)) k = Some r \<and> slotId r = sid' \<and>
           lockedBy x = Some (userId r)"
      by (intro exI [of _ k] exI [of _ r']) (simp add: AList.delete_conv')
  qed
qed

lemma not_reverted:
  "(if c then slot\<lparr>status := Available, lockedBy := None\<rparr> else slot) = x \<Longrightarrow>
     status x = Locked \<Longrightarrow> \<not> c \<and> x = slot"
  by (cases c) auto

lemma wellFormed_releaseLock:
  assumes wf: "wellFormed s"
  shows "wellFormed (snd (releaseLock lid uid s))"
proof (cases "ok (fst (releaseLock lid uid s))")
  case False
  then show ?thesis using wf by (simp add: releaseLock_failed_state)
next
  case True
  from releaseLock_success [OF True] obtain r where
    r: "map_of (locks s) lid = Some r" and
    l: "locks (snd (releaseLock lid uid s)) = AList.delete lid (locks s)" and
    t: "slots (snd (releaseLock lid uid s)) =
             (case map_of (slots s) (slotId r) of
                None \<Rightarrow> slots s
              | Some slot \<Rightarrow>
                  if status slot = Locked
                  then AList.update (slotId r) (slot\<lparr>status := Available, lockedBy := None\<rparr>)
                         (slots s)
                  else slots s)"
    by blast
  have slots': "map_of (slots (snd (releaseLock lid uid s))) k =
      map_option (\<lambda>slot. if k = slotId r \<and> status slot = Locked
                          then slot\<lparr>status := Available, lockedBy := None\<rparr> else slot)
        (map_of (slots s) k)" for k
    unfolding t
    by (cases "map_of (slots s) k") (auto simp add: AList.update_conv' split: option.splits)
  show ?thesis
    unfolding wellFormed_def
  proof (intro conjI allI impI)
    show "distinct (map fst (locks (snd (releaseLock lid uid s))))"
      using wf by (simp add: l wellFormed_def AList.distinct_delete)
  next
    fix k x
    assume "map_of (slots (snd (releaseLock lid uid s))) k = Some x"
    then show "id_slot x = k"
      using wf by (auto simp add: slots' wellFormed_def split: if_splits)
  next
    fix sid' x
    assume a: "map_of (slots (snd (releaseLock lid uid s))) sid' = Some x"
      and b: "status x = Locked"
    from a obtain slot where s0: "map_of (slots s) sid' = Some slot"
      and x: "(if sid' = slotId r \<and> status slot = Locked
               then slot\<lparr>status := Available, lockedBy := None\<rparr> else slot) = x"
      by (auto simp add: slots')
    from not_reverted [OF x b] s0 b
    have ne: "sid' \<noteq> slotId r" and "map_of (slots s) sid' = Some x"
      by auto
    with wf b obtain k r' where kr: "map_of (locks s) k = Some r'" "slotId r' = sid'"
          "lockedBy x = Some (userId r')"
      unfolding wellFormed_def by blast
    with r ne have "k \<noteq> lid" by auto
    with kr show "\<exists>k r. map_of (locks (snd (releaseLock lid uid s))) k = Some r \<and>
           slotId r = sid' \<and> lockedBy x = Some (userId r)"
      by (intro exI [of _ k] exI [of _ r']) (simp add: l AList.delete_conv')
  qed
qed

lemma wellFormed_gcExpiredLocks:
  assumes wf: "wellFormed s"
  shows "wellFormed (gcExpiredLocks now s)"
proof -
  from wf have d: "distinct (map fst (locks s))"
    by (simp add: wellFormed_def)
  note l = gc_locks [OF d, of now]
  show ?thesis
    unfolding wellFormed_def
  proof (intro conjI allI impI)
    show "distinct (map fst (locks (gcExpiredLocks now s)))"
      using d by (simp add: l distinct_map_filter)
  next
    fix k x
    assume "map_of (slots (gcExpiredLocks now s)) k = Some x"
    then show "id_slot x = k"
      using wf by (auto simp add: gc_slots_of wellFormed_def split: if_splits)
  next
    fix sid' x
    assume a: "map_of (slots (gcExpiredLocks now s)) sid' = Some x"
      and b: "status x = Locked"
    from a obtain slot where s0: "map_of (slots s) sid' = Some slot"
      and x: "(if status slot = Locked \<and>
                      (\<exists>(k, r) \<in> set (locks s). expiresAt r \<le> now \<and> slotId r = sid')
                   then slot\<lparr>status := Available, lockedBy := None\<rparr> else slot) = x"
      by (auto simp add: gc_slots_of)
    from not_reverted [OF x b] s0 b
    have old: "map_of (slots s) sid' = Some x"
      and live: "\<not> (\<exists>(k, r) \<in> set (locks s). expiresAt r \<le> now \<and> slotId r = sid')"
      by auto
    from wf b old obtain k r' where kr: "map_of (locks s) k = Some r'" "slotId r' = sid'"
          "lockedBy x = Some (userId r')"
      unfolding wellFormed_def by blast
    from kr(1) have "(k, r') \<in> set (locks s)"
      by (rule map_of_SomeD)
    with live kr(2) have "\<not> expiresAt r' \<le> now"
      by auto
    with kr(1) have "map_of (locks (gcExpiredLocks now s)) k = Some r'"
      unfolding l by (intro map_of_filter_in) auto
    with kr show "\<exists>k r. map_of (locks (gcExpiredLocks now s)) k = Some r \<and>
           slotId r = sid' \<and> lockedBy x = Some (userId r)"
      by blast
  qed
qed

lemma wellFormed_step:
  "wellFormed s \<Longrightarrow> freshId x s \<Longrightarrow> wellFormed (step x s)"
  by (cases x)
    (simp_all add: wellFormed_lockSlot wellFormed_confirmBooking wellFormed_releaseLock
      wellFormed_gcExpiredLocks)

lemma wellFormed_run:
  "wellFormed s \<Longrightarrow> freshRun xs s \<Longrightarrow> wellFormed (run xs s)"
  by (induction xs arbitrary: s) (simp_all add: run_def wellFormed_step)

lemma update_fresh: "map_of al k = None \<Longrightarrow> AList.update k v al = al @ [(k, v)]"
  by (induction al) (auto split: if_splits)

lemma length_filter_delete:
  "distinct (map fst al) \<Longrightarrow> map_of al k = Some v \<Longrightarrow>
     length (filter P (AList.delete k al)) + (if P (k, v) then 1 else 0) = length (filter P al)"
proof (induction al)
  case Nil
  then show ?case by simp
next
  case (Cons p al)
  obtain k' v' where p: "p = (k', v')" by (cases p)
  show ?case
  proof (cases "k' = k")
    case True
    with Cons.prems p have "v' = v" and "k \<notin> fst ` set al"
      by auto
    then show ?thesis
      using True p by (simp add: AList.delete_id)
  next
    case False
    with Cons p show ?thesis
      by auto
  qed
qed

lemma oneLease_new: "oneLease (newMockServer draws)"
proof -
  have "status slot = Available" if "map_of (slots (newMockServer draws)) sid = Some slot"
    for sid slot
    using initial_slot_of [OF that] by (auto simp add: initialSlot_def)
  moreover have "locks (newMockServer draws) = []"
    by (simp add: newMockServer_def)
  ultimately show ?thesis
    by (auto simp add: oneLease_def leasesOf_def split: option.splits)
qed

lemma oneLease_lockSlot:
  assumes wf: "wellFormed s" and one: "oneLease s"
    and fresh: "map_of (locks s) (''lock_'' @ rnd) = None"
    and plain: "\<not> ownRelock (LockSlot sid uid ev rnd now) s"
  shows "oneLease (snd (lockSlot sid uid ev rnd now s))"
proof (cases "ok (fst (lockSlot sid uid ev rnd now s))")
  case False
  then show ?thesis using one by (simp add: lockSlot_failed_state)
next
  case True
  from lockSlot_success [OF True] obtain slot where
    slot: "map_of (slots s) sid = Some slot" and
    mine: "status slot = Locked \<longrightarrow> lockedBy slot = Some uid" and
    l: "locks (snd (lockSlot sid uid ev rnd now s)) =
             AList.update (''lock_'' @ rnd)
               \<lparr>lockId = ''lock_'' @ rnd, slotId = id_slot slot, userId = uid,
                  expiresAt = now + 10000\<rparr> (locks s)" and
    t: "slots (snd (lockSlot sid uid ev rnd now s)) =
             AList.update sid (slot\<lparr>status := Locked, lockedBy := Some uid\<rparr>) (slots s)"
    by blast
  from wf slot have id: "id_slot slot = sid"
    by (simp add: wellFormed_def)
  from plain slot mine have free: "status slot \<noteq> Locked"
    by auto
  from l have l': "locks (snd (lockSlot sid uid ev rnd now s)) =
      locks s @ [(''lock_'' @ rnd,
        \<lparr>lockId = ''lock_'' @ rnd, slotId = id_slot slot, userId = uid,
           expiresAt = now + 10000\<rparr>)]"
    by (simp only: update_fresh [OF fresh])
  show ?thesis
    unfolding oneLease_def
  proof
    fix sid'
    have cnt: "length (leasesOf sid' (snd (lockSlot sid uid ev rnd now s))) =
        length (leasesOf sid' s) + (if sid' = sid then 1 else 0)"
      by (auto simp add: leasesOf_def l' id)
    from one have old: "length (leasesOf sid' s) =
        (case map_of (slots s) sid' of
           None \<Rightarrow> 0
         | Some slot \<Rightarrow> if status slot = Locked then 1 else 0)"
      by (simp add: oneLease_def)
    show "length (leasesOf sid' (snd (lockSlot sid uid ev rnd now s))) =
        (case map_of (slots (snd (lockSlot sid uid ev rnd now s))) sid' of
           None \<Rightarrow> 0
         | Some slot \<Rightarrow> if status slot = Locked then 1 else 0)"
      using old slot free
      by (auto simp add: cnt t AList.update_conv')
  qed
qed

lemma oneLease_confirmBooking:
  assumes wf: "wellFormed s" and one: "oneLease s"
  shows "oneLease (snd (confirmBooking lid uid now s))"
proof (cases "ok (fst (confirmBooking lid uid now s))")
  case False
  then show ?thesis using one by (simp add: confirmBooking_failed_state)
next
  case True
  from confirmBooking_ok_state [OF True] obtain r slot where
    r: "map_of (locks s) lid = Some r" and
    slot: "map_of (slots s) (slotId r) = Some slot" and
    l: "locks (snd (confirmBooking lid uid now s)) = AList.delete lid (locks s)" and
    t: "slots (snd (confirmBooking lid uid now s)) =
             AList.update (slotId r)
               (slot\<lparr>booked := False, lockedBy := None, status := Available\<rparr>) (slots s)"
    by blast
  from wf have d: "distinct (map fst (locks s))"
    by (simp add: wellFormed_def)
  show ?thesis
    unfolding oneLease_def
  proof
    fix sid'
    from one have old: "length (leasesOf sid' s) =
        (case map_of (slots s) sid' of
           None \<Rightarrow> 0
         | Some slot \<Rightarrow> if status slot = Locked then 1 else 0)"
      by (simp add: oneLease_def)
    from length_filter_delete [OF d r, of "\<lambda>(k, r). slotId r = sid'"]
    have del: "length (leasesOf sid' (snd (confirmBooking lid uid now s))) +
        (if slotId r = sid' then 1 else 0) = length (leasesOf sid' s)"
      by (simp add: leasesOf_def l)
    show "length (leasesOf sid' (snd (confirmBooking lid uid now s))) =
        (case map_of (slots (snd (confirmBooking lid uid now s))) sid' of
           None \<Rightarrow> 0
         | Some slot \<Rightarrow> if status slot = Locked then 1 else 0)"
      using old del slot
      by (auto simp add: t AList.update_conv' split: if_splits)
  qed
qed

lemma oneLease_releaseLock:
  assumes wf: "wellFormed s" and one: "oneLease s"
  shows "oneLease (snd (releaseLock lid uid s))"
proof (cases "ok (fst (releaseLock lid uid s))")
  case False
  then show ?thesis using one by (simp add: releaseLock_failed_state)
next
  case True
  from releaseLock_success [OF True] obtain r where
    r: "map_of (locks s) lid = Some r" and
    l: "locks (snd (releaseLock lid uid s)) = AList.delete lid (locks s)" and
    t: "slots (snd (releaseLock lid uid s)) =
             (case map_of (slots s) (slotId r) of
                None \<Rightarrow> slots s
              | Some slot \<Rightarrow>
                  if status slot = Locked
                  then AList.update (slotId r) (slot\<lparr>status := Available, lockedBy := None\<rparr>)
                         (slots s)
                  else slots s)"
    by blast
  from wf have d: "distinct (map fst (locks s))"
    by (simp add: wellFormed_def)
  show ?thesis
    unfolding oneLease_def
  proof
    fix sid'
    from one have old: "length (leasesOf sid' s) =
        (case map_of (slots s) sid' of
           None \<Rightarrow> 0
         | Some slot \<Rightarrow> if status slot = Locked then 1 else 0)"
      by (simp add: oneLease_def)
    from length_filter_delete [OF d r, of "\<lambda>(k, r). slotId r = sid'"]
    have del: "length (leasesOf sid' (snd (releaseLock lid uid s))) +
        (if slotId r = sid' then 1 else 0) = length (leasesOf sid' s)"
      by (simp add: leasesOf_def l)
    show "length (leasesOf sid' (snd (releaseLock lid uid s))) =
        (case map_of (slots (snd (releaseLock lid uid s))) sid' of
           None \<Rightarrow> 0
         | Some slot \<Rightarrow> if status slot = Locked then 1 else 0)"
      using old del
      by (auto simp add: t AList.update_conv' split: if_splits option.splits)
  qed
qed

lemma oneLease_gcExpiredLocks:
  assumes wf: "wellFormed s" and one: "oneLease s"
  shows "oneLease (gcExpiredLocks now s)"
  unfolding oneLease_def
proof
  fix sid'
  from wf have d: "distinct (map fst (locks s))"
    by (simp add: wellFormed_def)
  from one have old: "length (leasesOf sid' s) =
        (case map_of (slots s) sid' of
           None \<Rightarrow> 0
         | Some slot \<Rightarrow> if status slot = Locked then 1 else 0)"
    by (simp add: oneLease_def)
  have new: "leasesOf sid' (gcExpiredLocks now s) =
      filter (\<lambda>(k, r). \<not> expiresAt r \<le> now) (leasesOf sid' s)"
    by (auto simp add: leasesOf_def gc_locks [OF d] intro: filter_cong)
  have ex: "(\<exists>(k, r) \<in> set (locks s). expiresAt r \<le> now \<and> slotId r = sid') \<longleftrightarrow>
      (\<exists>(k, r) \<in> set (leasesOf sid' s). expiresAt r \<le> now)"
    by (auto simp add: leasesOf_def)
  show "length (leasesOf sid' (gcExpiredLocks now s)) =
        (case map_of (slots (gcExpiredLocks now s)) sid' of
           None \<Rightarrow> 0
         | Some slot \<Rightarrow> if status slot = Locked then 1 else 0)"
  proof (cases "map_of (slots s) sid'")
    case None
    with old show ?thesis
      by (simp add: new gc_slots_of)
  next
    case (Some slot)
    show ?thesis
    proof (cases "status slot = Locked")
      case False
      with old Some show ?thesis
        by (simp add: new gc_slots_of)
    next
      case True
      with old Some have "length (leasesOf sid' s) = 1"
        by simp
      then obtain k r where kr: "leasesOf sid' s = [(k, r)]"
        by (cases "leasesOf sid' s") auto
      show ?thesis
        using Some True
        by (cases "expiresAt r \<le> now") (simp_all add: new gc_slots_of ex kr)
    qed
  qed
qed

lemma oneLease_step:
  "wellFormed s \<Longrightarrow> oneLease s \<Longrightarrow> freshId x s \<Longrightarrow> \<not> ownRelock x s \<Longrightarrow> oneLease (step x s)"
  by (cases x)
    (simp_all add: oneLease_lockSlot oneLease_confirmBooking oneLease_releaseLock
      oneLease_gcExpiredLocks del: ownRelock.simps)

lemma oneLease_run:
  "wellFormed s \<Longrightarrow> oneLease s \<Longrightarrow> plainRun xs s \<Longrightarrow> oneLease (run xs s)"
proof (induction xs arbitrary: s)
  case Nil
  then show ?case by (simp add: run_def)
next
  case (Cons x xs)
  from Cons.prems have "wellFormed (step x s)" "oneLease (step x s)" "plainRun xs (step x s)"
    by (simp_all add: wellFormed_step oneLease_step)
  then have "oneLease (run xs (step x s))"
    by (rule Cons.IH)
  then show ?case
    by (simp add: run_def)
qed


section \<open>C2: locked slots and their leases\<close>

text \<open>
  C2, as the code has it. Take any state reached from a new server by \<open>lockSlot\<close>,
  \<open>confirmBooking\<close>, \<open>releaseLock\<close> and sweeps in which each \<open>lockSlot\<close> draws a lock id
  that is not in the lock table. A slot with status \<open>locked\<close> is then referenced by at
  least one lock record, one whose user is the slot's \<open>lockedBy\<close>; the record may have
  expired (until a sweep removes it). If moreover no call locks a slot that its caller
  already holds, a slot is locked exactly when one lock record references it, and is
  referenced by none otherwise.
\<close>

theorem locked_slot_leases:
  "(freshRun xs (newMockServer draws) \<and>
    map_of (slots (run xs (newMockServer draws))) sid = Some slot \<and> status slot = Locked \<longrightarrow>
      (\<exists>(k, r) \<in> set (leasesOf sid (run xs (newMockServer draws))).
         lockedBy slot = Some (userId r))) \<and>
   (plainRun xs (newMockServer draws) \<and>
    map_of (slots (run xs (newMockServer draws))) sid = Some slot \<longrightarrow>
      (status slot = Locked \<longleftrightarrow> length (leasesOf sid (run xs (newMockServer draws))) = 1) \<and>
      (status slot \<noteq> Locked \<longleftrightarrow> leasesOf sid (run xs (newMockServer draws)) = []))"
proof -
  let ?s = "run xs (newMockServer draws)"
  have 1: "\<exists>(k, r) \<in> set (leasesOf sid ?s). lockedBy slot = Some (userId r)"
    if a: "freshRun xs (newMockServer draws) \<and> map_of (slots ?s) sid = Some slot \<and>
      status slot = Locked"
  proof -
    from a have "wellFormed ?s"
      by (simp add: wellFormed_run wellFormed_new)
    with a obtain k r where
      "map_of (locks ?s) k = Some r" "slotId r = sid" "lockedBy slot = Some (userId r)"
      unfolding wellFormed_def by blast
    then show ?thesis
      by (auto simp add: leasesOf_def dest!: map_of_SomeD)
  qed
  have 2: "(status slot = Locked \<longleftrightarrow> length (leasesOf sid ?s) = 1) \<and>
      (status slot \<noteq> Locked \<longleftrightarrow> leasesOf sid ?s = [])"
    if a: "plainRun xs (newMockServer draws) \<and> map_of (slots ?s) sid = Some slot"
  proof -
    from a have "oneLease ?s"
      by (simp add: oneLease_run wellFormed_new oneLease_new)
    then have "length (leasesOf sid ?s) =
        (case map_of (slots ?s) sid of
           None \<Rightarrow> 0
         | Some slot \<Rightarrow> if status slot = Locked then 1 else 0)"
      by (simp add: oneLease_def)
    with a show ?thesis
      by auto
  qed
  from 1 2 show ?thesis
    by blast
qed

theorem locked_slot_leases_witness:
  "freshRun aliceOnce server5 \<and> plainRun aliceOnce server5 \<and>
   map_of (slots (run aliceOnce server5)) ''slot-2'' =
     Some \<lparr>id_slot = ''slot-2'', label = ''11:00-12:00'', status = Locked,
         booked = False, lockedBy = Some ''alice''\<rparr> \<and>
   (\<exists>(k, r) \<in> set (leasesOf ''slot-2'' (run aliceOnce server5)). ''alice'' = userId r) \<and>
   length (leasesOf ''slot-2'' (run aliceOnce server5)) = 1"
proof -
  let ?slot = "\<lparr>id_slot = ''slot-2'', label = ''11:00-12:00'', status = Locked,
         booked = False, lockedBy = Some ''alice''\<rparr>"
  let ?draws = "[True, False, False, False, False]"
  have h1: "freshRun aliceOnce (newMockServer ?draws)"
    by (simp add: server5_def [symmetric] aliceOnce_def server5_eq)
  have h2: "map_of (slots (run aliceOnce (newMockServer ?draws))) ''slot-2'' = Some ?slot"
    by (simp add: server5_def [symmetric] aliceOnce_slots)
  have h3: "status ?slot = Locked"
    by simp
  have h4: "plainRun aliceOnce (newMockServer ?draws)"
    by (simp add: server5_def [symmetric] aliceOnce_plain)
  note inst = locked_slot_leases [of aliceOnce ?draws "''slot-2''" ?slot]
  from inst h1 h2 h3
  have 1: "\<exists>(k, r) \<in> set (leasesOf ''slot-2'' (run aliceOnce (newMockServer ?draws))).
      lockedBy ?slot = Some (userId r)"
    by blast
  from inst h4 h2 h3
  have 2: "length (leasesOf ''slot-2'' (run aliceOnce (newMockServer ?draws))) = 1"
    by blast
  from 1 2 h1 h2 h4 show ?thesis
    by (simp add: server5_def [symmetric])
qed

text \<open>
  C2 as the specification states it fails in both directions. After alice has locked
  \<open>slot-2\<close> twice (the check lets the owner through), the slot is locked and
  two lock records reference it; after she has released the first lock, the slot is
  available and one lock record still references it. All lock ids of the run are fresh.
\<close>

theorem locked_iff_one_lease_counterexample:
  "freshRun aliceReleased server5 \<and>
   map_option status (map_of (slots (run aliceTwice server5)) ''slot-2'') = Some Locked \<and>
   length (leasesOf ''slot-2'' (run aliceTwice server5)) = 2 \<and>
   map_option status (map_of (slots (run aliceReleased server5)) ''slot-2'') = Some Available \<and>
   length (leasesOf ''slot-2'' (run aliceReleased server5)) = 1"
  by (simp add: aliceReleased_fresh leasesOf_def aliceTwice_locks aliceTwice_slot2
        aliceReleased_locks aliceReleased_slot2)

section \<open>C3: the version counter\<close>










section \<open>C5: a tick of the sweep\<close>




section \<open>C9: a lease is used up by confirming or releasing it\<close>

lemma absent_filter: "map_of al k = None \<Longrightarrow> map_of (filter P al) k = None"
  by (auto simp add: map_of_eq_None_iff)

lemma absent_step:
  assumes "map_of (locks s) lid = None" and "drawnId x \<noteq> Some lid"
  shows "map_of (locks (step x s)) lid = None"
proof (cases x)
  case (LockSlot sid uid ev rnd now)
  with assms show ?thesis
    by (cases "ok (fst (lockSlot sid uid ev rnd now s))")
      (auto simp add: lockSlot_failed_state AList.update_conv' dest!: lockSlot_success)
next
  case (ConfirmBooking l uid now)
  with assms show ?thesis
    by (cases "ok (fst (confirmBooking l uid now s))")
      (auto simp add: confirmBooking_failed_state AList.delete_conv'
        dest!: confirmBooking_ok_state)
next
  case (ReleaseLock l uid)
  with assms show ?thesis
    by (cases "ok (fst (releaseLock l uid s))")
      (auto simp add: releaseLock_failed_state AList.delete_conv' dest!: releaseLock_success)
next
  case (Sweep now)
  with assms show ?thesis
    by (simp add: gcExpiredLocks_fields fold_delete_filter absent_filter)
qed

lemma absent_run:
  "map_of (locks s) lid = None \<Longrightarrow> Some lid \<notin> set (map drawnId xs) \<Longrightarrow>
     map_of (locks (run xs s)) lid = None"
proof (induction xs arbitrary: s)
  case Nil
  then show ?case by (simp add: run_def)
next
  case (Cons x xs)
  from Cons.prems have "map_of (locks (step x s)) lid = None"
    by (intro absent_step) auto
  with Cons.prems Cons.IH [of "step x s"] show ?case
    by (simp add: run_def)
qed

lemma absent_refused:
  "map_of (locks s) lid = None \<Longrightarrow>
     confirmBooking lid uid now s = (Fail LockNotFound (version s), s) \<and>
     releaseLock lid uid s = (Fail LockNotFound (version s), s)"
  by (simp add: confirmBooking_def releaseLock_def)

lemma deleted_after_success:
  "ok (fst (confirmBooking lid uid now s)) \<Longrightarrow>
     map_of (locks (snd (confirmBooking lid uid now s))) lid = None"
  "ok (fst (releaseLock lid uid s)) \<Longrightarrow>
     map_of (locks (snd (releaseLock lid uid s))) lid = None"
  by (auto simp add: AList.delete_conv' dest!: confirmBooking_ok_state releaseLock_success)

lemma kept_or_deleted:
  assumes d: "distinct (map fst (locks s))" and x: "drawnId x \<noteq> Some k"
  shows "map_of (locks (step x s)) k = None \<or> map_of (locks (step x s)) k = map_of (locks s) k"
proof (cases x)
  case (LockSlot sid uid ev rnd now)
  with x show ?thesis
    by (cases "ok (fst (lockSlot sid uid ev rnd now s))")
      (auto simp add: lockSlot_failed_state AList.update_conv' dest!: lockSlot_success)
next
  case (ConfirmBooking l uid now)
  then show ?thesis
    by (cases "ok (fst (confirmBooking l uid now s))")
      (auto simp add: confirmBooking_failed_state AList.delete_conv'
        dest!: confirmBooking_ok_state)
next
  case (ReleaseLock l uid)
  then show ?thesis
    by (cases "ok (fst (releaseLock l uid s))")
      (auto simp add: releaseLock_failed_state AList.delete_conv' dest!: releaseLock_success)
next
  case (Sweep now)
  show ?thesis
  proof (cases "map_of (locks s) k")
    case None
    then show ?thesis
      by (simp add: Sweep gcExpiredLocks_fields fold_delete_filter absent_filter)
  next
    case (Some r)
    show ?thesis
    proof (cases "expiresAt r \<le> now")
      case True
      have "k \<notin> fst ` set (filter (\<lambda>(k, r). \<not> expiresAt r \<le> now) (locks s))"
      proof
        assume "k \<in> fst ` set (filter (\<lambda>(k, r). \<not> expiresAt r \<le> now) (locks s))"
        then obtain r' where "(k, r') \<in> set (locks s)" "\<not> expiresAt r' \<le> now"
          by auto
        moreover from Some have "(k, r) \<in> set (locks s)"
          by (rule map_of_SomeD)
        ultimately show False
          using d True by (metis eq_key_imp_eq_value)
      qed
      then show ?thesis
        by (simp add: Sweep gc_locks [OF d] map_of_eq_None_iff)
    next
      case False
      with Some have "map_of (filter (\<lambda>(k, r). \<not> expiresAt r \<le> now) (locks s)) k = Some r"
        by (intro map_of_filter_in) auto
      with Some show ?thesis
        by (simp add: Sweep gc_locks [OF d])
    qed
  qed
qed

text \<open>
  C9, as the code has it. Once \<open>confirmBooking\<close> or \<open>releaseLock\<close> has succeeded for a
  lock id, then after
  any further operations in which no \<open>lockSlot\<close> draws that id again, every
  \<open>confirmBooking\<close> and every \<open>releaseLock\<close> with that id answers \<open>LockNotFound\<close> and
  changes nothing. Moreover a lock record is never changed in place: on a lock table with
  distinct keys (as a \<open>Map\<close> has), an operation that does not draw the record's id
  leaves the record as it is or deletes it.
\<close>

theorem deleted_lease_stays_deleted:
  "((ok (fst (confirmBooking lid uid now s)) \<and> s' = snd (confirmBooking lid uid now s) \<or>
     ok (fst (releaseLock lid uid s)) \<and> s' = snd (releaseLock lid uid s)) \<and>
    Some lid \<notin> set (map drawnId xs) \<longrightarrow>
      confirmBooking lid uid' now' (run xs s') =
        (Fail LockNotFound (version (run xs s')), run xs s') \<and>
      releaseLock lid uid' (run xs s') =
        (Fail LockNotFound (version (run xs s')), run xs s')) \<and>
   (distinct (map fst (locks s)) \<and> drawnId x \<noteq> Some lid \<longrightarrow>
      map_of (locks (step x s)) lid = None \<or>
      map_of (locks (step x s)) lid = map_of (locks s) lid)"
proof -
  have 1: "confirmBooking lid uid' now' (run xs s') =
       (Fail LockNotFound (version (run xs s')), run xs s') \<and>
     releaseLock lid uid' (run xs s') =
       (Fail LockNotFound (version (run xs s')), run xs s')"
    if a: "(ok (fst (confirmBooking lid uid now s)) \<and> s' = snd (confirmBooking lid uid now s) \<or>
      ok (fst (releaseLock lid uid s)) \<and> s' = snd (releaseLock lid uid s)) \<and>
      Some lid \<notin> set (map drawnId xs)"
  proof -
    from a have "map_of (locks s') lid = None"
      by (auto simp add: deleted_after_success)
    with a have "map_of (locks (run xs s')) lid = None"
      by (intro absent_run) auto
    then show ?thesis
      by (rule absent_refused)
  qed
  have 2: "map_of (locks (step x s)) lid = None \<or>
      map_of (locks (step x s)) lid = map_of (locks s) lid"
    if "distinct (map fst (locks s)) \<and> drawnId x \<noteq> Some lid"
    using that by (simp add: kept_or_deleted)
  from 1 2 show ?thesis
    by blast
qed

theorem deleted_lease_stays_deleted_witness:
  "ok (fst (confirmBooking ''lock_a'' ''alice'' 5000 (run aliceOnce server5))) \<and>
   Some ''lock_a'' \<notin> set (map drawnId [LockSlot ''slot-2'' ''bob'' None ''c'' 6000, Sweep 20000]) \<and>
   fst (confirmBooking ''lock_a'' ''alice'' 7000
      (run [LockSlot ''slot-2'' ''bob'' None ''c'' 6000, Sweep 20000]
         (snd (confirmBooking ''lock_a'' ''alice'' 5000 (run aliceOnce server5))))) =
     Fail LockNotFound 5 \<and>
   ok (fst (releaseLock ''lock_a'' ''alice'' (run aliceOnce server5))) \<and>
   fst (releaseLock ''lock_a'' ''alice''
      (run [] (snd (releaseLock ''lock_a'' ''alice'' (run aliceOnce server5))))) =
     Fail LockNotFound 3 \<and>
   distinct (map fst (locks (run aliceOnce server5))) \<and>
   map_of (locks (step (Sweep 10000) (run aliceOnce server5))) ''lock_a'' = None"
proof -
  let ?s = "run aliceOnce server5"
  let ?xs = "[LockSlot ''slot-2'' ''bob'' None ''c'' 6000, Sweep 20000]"
  let ?c = "snd (confirmBooking ''lock_a'' ''alice'' 5000 ?s)"
  let ?r = "snd (releaseLock ''lock_a'' ''alice'' ?s)"
  have c: "ok (fst (confirmBooking ''lock_a'' ''alice'' 5000 ?s))"
    by (simp add: confirmBooking_def aliceOnce_locks aliceOnce_slots Let_def)
  have r: "ok (fst (releaseLock ''lock_a'' ''alice'' ?s))"
    by (simp add: releaseLock_def aliceOnce_locks aliceOnce_slots Let_def)
  have x: "Some ''lock_a'' \<notin> set (map drawnId ?xs)" "Some ''lock_a'' \<notin> set (map drawnId [])"
    by simp_all
  have d: "distinct (map fst (locks ?s))" "drawnId (Sweep 10000) \<noteq> Some ''lock_a''"
    by (simp_all add: aliceOnce_locks)
  have vc: "version (run ?xs ?c) = 5"
    by (simp add: aliceOnce_def server5_eq eval_defs)
  have vr: "version (run [] ?r) = 3"
    by (simp add: aliceOnce_def server5_eq eval_defs)
  from deleted_lease_stays_deleted
    [of "''lock_a''" "''alice''" 5000 ?s ?c ?xs "''alice''" 7000] c x
  have 1: "confirmBooking ''lock_a'' ''alice'' 7000 (run ?xs ?c) =
      (Fail LockNotFound (version (run ?xs ?c)), run ?xs ?c)"
    by blast
  from deleted_lease_stays_deleted
    [of "''lock_a''" "''alice''" _ ?s ?r "[]" "''alice''"] r x
  have 2: "releaseLock ''lock_a'' ''alice'' (run [] ?r) =
      (Fail LockNotFound (version (run [] ?r)), run [] ?r)"
    by blast
  from deleted_lease_stays_deleted
    [of "''lock_a''" _ _ ?s _ _ _ _ "Sweep 10000"] d
  have 3: "map_of (locks (step (Sweep 10000) ?s)) ''lock_a'' = None \<or>
      map_of (locks (step (Sweep 10000) ?s)) ''lock_a'' = map_of (locks ?s) ''lock_a''"
    by blast
  have 4: "map_of (locks (step (Sweep 10000) ?s)) ''lock_a'' = None"
    by (simp add: aliceOnce_def server5_eq eval_defs)
  from c r x d 1 2 4 show ?thesis
    by (simp only: vc vr fst_conv simp_thms)
qed

text \<open>
  C9 as the specification states it fails when a later \<open>lockSlot\<close> draws the same random
  id again; the server does not check a new id against earlier ones. Alice confirms
  \<open>lock_a\<close>; bob then locks \<open>slot-2\<close> and draws \<open>a\<close>, which is not in the lock table;
  after that both \<open>confirmBooking\<close> and \<open>releaseLock\<close> with \<open>lock_a\<close> succeed for bob.
\<close>

theorem lease_id_redrawn_counterexample:
  "ok (fst (confirmBooking ''lock_a'' ''alice'' 5000 (run aliceOnce server5))) \<and>
   freshRun [LockSlot ''slot-2'' ''bob'' None ''a'' 6000]
     (snd (confirmBooking ''lock_a'' ''alice'' 5000 (run aliceOnce server5))) \<and>
   ok (fst (confirmBooking ''lock_a'' ''bob'' 7000
     (run [LockSlot ''slot-2'' ''bob'' None ''a'' 6000]
        (snd (confirmBooking ''lock_a'' ''alice'' 5000 (run aliceOnce server5)))))) \<and>
   ok (fst (releaseLock ''lock_a'' ''bob''
     (run [LockSlot ''slot-2'' ''bob'' None ''a'' 6000]
        (snd (confirmBooking ''lock_a'' ''alice'' 5000 (run aliceOnce server5))))))"
  by (simp add: aliceOnce_def server5_eq eval_defs)

section \<open>C8: confirming an expired lease\<close>

lemma swept_absent:
  assumes "map_of (locks s) lid = Some L" and "expiresAt L \<le> t"
  shows "map_of (locks (gcExpiredLocks t s)) lid = None"
proof -
  define ex where "ex = map fst (filter (\<lambda>(k, r). expiresAt r \<le> t) (locks s))"
  from assms(1) have "(lid, L) \<in> set (locks s)"
    by (rule map_of_SomeD)
  with assms(2) have m: "lid \<in> set ex"
    unfolding ex_def by force
  have l: "locks (gcExpiredLocks t s) = filter (\<lambda>p. fst p \<notin> set ex) (locks s)"
    by (simp only: gcExpiredLocks_fields gc_expired fold_delete_filter append_Nil ex_def)
  from m have "lid \<notin> fst ` set (filter (\<lambda>p. fst p \<notin> set ex) (locks s))"
    by auto
  then show ?thesis
    by (simp add: l map_of_eq_None_iff)
qed

text \<open>
  C8, as the code has it. A lease whose \<open>expiresAt\<close> is at or before the current time
  cannot be confirmed. While its record is still in the lock table (no sweep has removed
  it), the owner's \<open>confirmBooking\<close> answers \<open>LockExpired\<close>, and no caller's call
  succeeds or changes the state. Once a sweep at or after \<open>expiresAt\<close> has run, the record
  is gone and every \<open>confirmBooking\<close> with its id answers \<open>LockNotFound\<close>, also after
  further operations in which no \<open>lockSlot\<close> draws that id again.
\<close>

theorem expired_lease_is_not_confirmed:
  assumes "map_of (locks s) lid = Some L" and "expiresAt L \<le> now"
  shows "confirmBooking lid (userId L) now s = (Fail LockExpired (version s), s) \<and>
         \<not> ok (fst (confirmBooking lid uid now s)) \<and>
         snd (confirmBooking lid uid now s) = s \<and>
         (expiresAt L \<le> t \<and> Some lid \<notin> set (map drawnId xs) \<longrightarrow>
            confirmBooking lid uid now' (run xs (gcExpiredLocks t s)) =
              (Fail LockNotFound (version (run xs (gcExpiredLocks t s))),
               run xs (gcExpiredLocks t s)))"
proof -
  have "confirmBooking lid uid now' (run xs (gcExpiredLocks t s)) =
      (Fail LockNotFound (version (run xs (gcExpiredLocks t s))), run xs (gcExpiredLocks t s))"
    if a: "expiresAt L \<le> t \<and> Some lid \<notin> set (map drawnId xs)"
  proof -
    from assms(1) a have "map_of (locks (gcExpiredLocks t s)) lid = None"
      by (simp add: swept_absent)
    with a have "map_of (locks (run xs (gcExpiredLocks t s))) lid = None"
      by (intro absent_run) auto
    then show ?thesis
      by (simp add: absent_refused)
  qed
  with assms show ?thesis
    by (simp add: confirmBooking_def)
qed

theorem expired_lease_is_not_confirmed_witness:
  "map_of (locks (run aliceOnce server5)) ''lock_a'' =
     Some \<lparr>lockId = ''lock_a'', slotId = ''slot-2'', userId = ''alice'', expiresAt = 10000\<rparr> \<and>
   confirmBooking ''lock_a'' ''alice'' 10000 (run aliceOnce server5) =
     (Fail LockExpired 2, run aliceOnce server5) \<and>
   Some ''lock_a'' \<notin> set (map drawnId [LockSlot ''slot-2'' ''bob'' None ''c'' 10002]) \<and>
   fst (confirmBooking ''lock_a'' ''alice'' 10003
     (run [LockSlot ''slot-2'' ''bob'' None ''c'' 10002]
        (gcExpiredLocks 10001 (run aliceOnce server5)))) = Fail LockNotFound 4"
proof -
  let ?L = "\<lparr>lockId = ''lock_a'', slotId = ''slot-2'', userId = ''alice'', expiresAt = 10000\<rparr>"
  let ?xs = "[LockSlot ''slot-2'' ''bob'' None ''c'' 10002]"
  let ?g = "gcExpiredLocks 10001 (run aliceOnce server5)"
  have h1: "map_of (locks (run aliceOnce server5)) ''lock_a'' = Some ?L"
    by (simp add: aliceOnce_locks)
  have h2: "expiresAt ?L \<le> 10000"
    by simp
  have h3: "expiresAt ?L \<le> 10001 \<and> Some ''lock_a'' \<notin> set (map drawnId ?xs)"
    by simp
  have v: "version (run ?xs ?g) = 4"
    by (simp add: aliceOnce_def server5_eq eval_defs)
  from expired_lease_is_not_confirmed [OF h1 h2, of "''alice''" 10001 ?xs 10003] h3
  have 1: "confirmBooking ''lock_a'' (userId ?L) 10000 (run aliceOnce server5) =
      (Fail LockExpired (version (run aliceOnce server5)), run aliceOnce server5)"
    and 2: "confirmBooking ''lock_a'' ''alice'' 10003 (run ?xs ?g) =
      (Fail LockNotFound (version (run ?xs ?g)), run ?xs ?g)"
    by blast+
  from 2 have 3: "fst (confirmBooking ''lock_a'' ''alice'' 10003 (run ?xs ?g)) =
      Fail LockNotFound 4"
    by (simp only: v fst_conv)
  from 1 have 4: "confirmBooking ''lock_a'' ''alice'' 10000 (run aliceOnce server5) =
     (Fail LockExpired 2, run aliceOnce server5)"
    by (simp add: aliceOnce_version)
  from h1 h3 3 4 show ?thesis
    by (simp only: simp_thms)
qed

text \<open>
  C8 as the specification states it fails once the sweep has run: alice locks \<open>slot-2\<close>
  at time 0, the sweep at time 10001 removes her expired lock record, and her
  \<open>confirmBooking\<close> at that time answers \<open>LockNotFound\<close>, not \<open>LockExpired\<close>.
\<close>

theorem expired_lease_after_sweep_counterexample:
  "map_of (locks (run aliceOnce server5)) ''lock_a'' =
     Some \<lparr>lockId = ''lock_a'', slotId = ''slot-2'', userId = ''alice'', expiresAt = 10000\<rparr> \<and>
   fst (confirmBooking ''lock_a'' ''alice'' 10001
     (gcExpiredLocks 10001 (run aliceOnce server5))) = Fail LockNotFound 3"
  by (simp add: aliceOnce_def server5_eq eval_defs)

section \<open>C10: the flag \<open>booked\<close>\<close>

text \<open>
  C10, as the code has it. When the flag \<open>booked\<close> of a slot is set, \<open>lockSlot\<close> on that
  slot fails whatever the status of the slot and changes nothing. The error is
  \<open>AlreadyBooked\<close> when no \<open>expectedVersion\<close> is given or it equals the version, and
  \<open>VersionConflict\<close> when a non-zero \<open>expectedVersion\<close> differs from the version (that
  check comes first). Every slot of a new server has status \<open>available\<close> and carries the
  constructor's draw as its flag.
\<close>

theorem booked_flag_blocks_lockSlot:
  "(map_of (slots s) sid = Some slot \<and> booked slot \<longrightarrow>
      \<not> ok (fst (lockSlot sid uid ev rnd now s)) \<and>
      snd (lockSlot sid uid ev rnd now s) = s \<and>
      (ev = None \<or> ev = Some (version s) \<longrightarrow>
         fst (lockSlot sid uid ev rnd now s) = Fail AlreadyBooked (version s)) \<and>
      (\<forall>e. ev = Some e \<and> e \<noteq> 0 \<and> e \<noteq> version s \<longrightarrow>
         fst (lockSlot sid uid ev rnd now s) = Fail VersionConflict (version s))) \<and>
   (map_of (slots (newMockServer draws)) sid' = Some slot' \<longrightarrow>
      status slot' = Available \<and> (\<exists>j < length draws. slot' = initialSlot j (draws ! j)))"
proof -
  have 1: "\<not> ok (fst (lockSlot sid uid ev rnd now s)) \<and>
      snd (lockSlot sid uid ev rnd now s) = s \<and>
      (ev = None \<or> ev = Some (version s) \<longrightarrow>
         fst (lockSlot sid uid ev rnd now s) = Fail AlreadyBooked (version s)) \<and>
      (\<forall>e. ev = Some e \<and> e \<noteq> 0 \<and> e \<noteq> version s \<longrightarrow>
         fst (lockSlot sid uid ev rnd now s) = Fail VersionConflict (version s))"
    if "map_of (slots s) sid = Some slot \<and> booked slot"
    using that by (auto simp add: lockSlot_checks versionMismatch_def)
  have 2: "status slot' = Available \<and> (\<exists>j < length draws. slot' = initialSlot j (draws ! j))"
    if "map_of (slots (newMockServer draws)) sid' = Some slot'"
  proof -
    from that obtain j where j: "j < length draws" "slot' = initialSlot j (draws ! j)"
      by (auto dest: initial_slot_of)
    then have "status slot' = Available"
      by (simp add: initialSlot_def)
    with j show ?thesis
      by blast
  qed
  from 1 2 show ?thesis
    by blast
qed

theorem booked_flag_blocks_lockSlot_witness:
  "map_of (slots server5) ''slot-1'' =
     Some \<lparr>id_slot = ''slot-1'', label = ''10:00-11:00'', status = Available,
            booked = True, lockedBy = None\<rparr> \<and>
   version server5 = 1 \<and>
   lockSlot ''slot-1'' ''alice'' (Some 1) ''a'' 0 server5 = (Fail AlreadyBooked 1, server5) \<and>
   lockSlot ''slot-1'' ''alice'' None ''a'' 0 server5 = (Fail AlreadyBooked 1, server5) \<and>
   lockSlot ''slot-1'' ''alice'' (Some 7) ''a'' 0 server5 = (Fail VersionConflict 1, server5)"
proof -
  let ?slot = "\<lparr>id_slot = ''slot-1'', label = ''10:00-11:00'', status = Available,
            booked = True, lockedBy = None\<rparr>"
  let ?draws = "[True, False, False, False, False]"
  have h: "map_of (slots server5) ''slot-1'' = Some ?slot \<and> booked ?slot"
    by (simp add: server5_eq)
  have i: "map_of (slots (newMockServer ?draws)) ''slot-1'' = Some ?slot"
    using h by (simp add: server5_def [symmetric])
  have v: "version server5 = 1"
    by (simp add: server5_eq)
  from booked_flag_blocks_lockSlot
    [of server5 "''slot-1''" ?slot "''alice''" "Some 1" "''a''" 0 ?draws "''slot-1''" ?slot] h i v
  have 1: "snd (lockSlot ''slot-1'' ''alice'' (Some 1) ''a'' 0 server5) = server5"
    and 2: "fst (lockSlot ''slot-1'' ''alice'' (Some 1) ''a'' 0 server5) =
      Fail AlreadyBooked (version server5)"
    by simp_all
  from booked_flag_blocks_lockSlot [of server5 "''slot-1''" ?slot "''alice''" None "''a''" 0] h
  have 3: "snd (lockSlot ''slot-1'' ''alice'' None ''a'' 0 server5) = server5"
    and 4: "fst (lockSlot ''slot-1'' ''alice'' None ''a'' 0 server5) =
      Fail AlreadyBooked (version server5)"
    by simp_all
  from booked_flag_blocks_lockSlot [of server5 "''slot-1''" ?slot "''alice''" "Some 7" "''a''" 0] h v
  have 5: "snd (lockSlot ''slot-1'' ''alice'' (Some 7) ''a'' 0 server5) = server5"
    and 6: "fst (lockSlot ''slot-1'' ''alice'' (Some 7) ''a'' 0 server5) =
      Fail VersionConflict (version server5)"
    by simp_all
  from h v 1 2 3 4 5 6 show ?thesis
    by (simp add: prod_eq_iff)
qed

text \<open>
  C10 as the specification states it fails when the caller's version is stale:
  \<open>slot-1\<close> of the five-slot server has the flag set and status
  \<open>available\<close>, the version is 1, and a request with \<open>expectedVersion:
  7\<close> is refused with \<open>VersionConflict\<close>.
\<close>

theorem booked_flag_version_conflict_counterexample:
  "map_of (slots server5) ''slot-1'' =
     Some \<lparr>id_slot = ''slot-1'', label = ''10:00-11:00'', status = Available,
            booked = True, lockedBy = None\<rparr> \<and>
   version server5 = 1 \<and>
   fst (lockSlot ''slot-1'' ''alice'' (Some 7) ''a'' 0 server5) = Fail VersionConflict 1"
  by (simp add: server5_eq lockSlot_checks versionMismatch_def)

end
